theory Spec2Isabelle
  imports Complex_Main
begin

text \<open>
  The acquisition functions of \<open>modAL/acquisition.py\<close>: probability of improvement,
  expected improvement and upper confidence bound (\<open>PI\<close>, \<open>EI\<close>, \<open>UCB\<close>), the adapters
  that compute them from a surrogate's predictions (\<open>optimizer_PI\<close>, \<open>optimizer_EI\<close>,
  \<open>optimizer_UCB\<close>) and the query strategies that select the best candidates (\<open>max_PI\<close>,
  \<open>max_EI\<close>, \<open>max_UCB\<close>). The module computes with numpy arrays, so the model starts with
  the entries of an array, its shape and numpy's broadcasting; a raised exception is a
  result \<open>Inl\<close>.
\<close>

section \<open>Array values\<close>

text \<open>
  The entries of a numpy float array. A finite entry is modelled by the real number it
  stands for, so rounding, overflow and the sign of zero are outside the model; the three
  non-finite values of IEEE 754 are kept, because a division by an exact zero produces
  them (numpy warns and goes on, it does not raise).
\<close>

datatype npfloat = Fin real | PInf | NInf | NaN

fun fl_neg :: "npfloat \<Rightarrow> npfloat" where
  "fl_neg (Fin a) = Fin (- a)"
| "fl_neg PInf = NInf"
| "fl_neg NInf = PInf"
| "fl_neg NaN = NaN"

fun fl_add :: "npfloat \<Rightarrow> npfloat \<Rightarrow> npfloat" where
  "fl_add (Fin a) (Fin b) = Fin (a + b)"
| "fl_add NaN y = NaN"
| "fl_add x NaN = NaN"
| "fl_add PInf NInf = NaN"
| "fl_add NInf PInf = NaN"
| "fl_add PInf y = PInf"
| "fl_add NInf y = NInf"
| "fl_add (Fin a) y = y"

definition fl_sub :: "npfloat \<Rightarrow> npfloat \<Rightarrow> npfloat" where
  "fl_sub x y = fl_add x (fl_neg y)"

text \<open>The sign of a value that is not NaN: 1, 0 or -1.\<close>

fun fl_sign :: "npfloat \<Rightarrow> real" where
  "fl_sign (Fin a) = sgn a"
| "fl_sign PInf = 1"
| "fl_sign NInf = - 1"
| "fl_sign NaN = 0"

definition signed_inf :: "real \<Rightarrow> npfloat" where
  "signed_inf s = (if s = 0 then NaN else if 0 < s then PInf else NInf)"

fun fl_mul :: "npfloat \<Rightarrow> npfloat \<Rightarrow> npfloat" where
  "fl_mul (Fin a) (Fin b) = Fin (a * b)"
| "fl_mul NaN y = NaN"
| "fl_mul x NaN = NaN"
| "fl_mul x y = signed_inf (fl_sign x * fl_sign y)"

text \<open>
  Division as numpy does it on float arrays: a finite value divided by zero is an
  infinity of the dividend's sign, zero divided by zero is NaN (the zero divisor is
  taken as +0.0).
\<close>

fun fl_div :: "npfloat \<Rightarrow> npfloat \<Rightarrow> npfloat" where
  "fl_div (Fin a) (Fin b) = (if b = 0 then signed_inf a else Fin (a / b))"
| "fl_div NaN y = NaN"
| "fl_div x NaN = NaN"
| "fl_div (Fin a) y = Fin 0"
| "fl_div x (Fin b) = signed_inf (fl_sign x * (if b < 0 then - 1 else 1))"
| "fl_div x y = NaN"

text \<open>The comparison \<open><\<close> of IEEE 754: NaN is below nothing and nothing is below it.\<close>

fun fl_less :: "npfloat \<Rightarrow> npfloat \<Rightarrow> bool" where
  "fl_less (Fin a) (Fin b) = (a < b)"
| "fl_less NaN y = False"
| "fl_less x NaN = False"
| "fl_less x NInf = False"
| "fl_less PInf y = False"
| "fl_less x y = True"

text \<open>
  \<open>scipy.special.ndtr\<close> and \<open>scipy.stats.norm.pdf\<close> are library functions: the model
  takes what they compute on finite arguments as parameters \<open>ndtr\<close> and \<open>pdf\<close>, and
  fixes their values at the non-finite arguments as scipy does.
\<close>

fun fl_ndtr :: "(real \<Rightarrow> real) \<Rightarrow> npfloat \<Rightarrow> npfloat" where
  "fl_ndtr ndtr (Fin a) = Fin (ndtr a)"
| "fl_ndtr ndtr PInf = Fin 1"
| "fl_ndtr ndtr NInf = Fin 0"
| "fl_ndtr ndtr NaN = NaN"

fun fl_pdf :: "(real \<Rightarrow> real) \<Rightarrow> npfloat \<Rightarrow> npfloat" where
  "fl_pdf pdf (Fin a) = Fin (pdf a)"
| "fl_pdf pdf PInf = Fin 0"
| "fl_pdf pdf NInf = Fin 0"
| "fl_pdf pdf NaN = NaN"

section \<open>Arrays and broadcasting\<close>

text \<open>
  A numpy array: its shape and its entries in row-major order. A Python float is the
  array of shape \<open>()\<close>.
\<close>

record ndarray =
  shape :: "nat list"
  data :: "npfloat list"

definition well_shaped :: "ndarray \<Rightarrow> bool" where
  "well_shaped a = (length (data a) = prod_list (shape a))"

definition scalar :: "real \<Rightarrow> ndarray" where
  "scalar c = \<lparr>shape = [], data = [Fin c]\<rparr>"

text \<open>An array of finite entries.\<close>

definition finite_nd :: "nat list \<Rightarrow> real list \<Rightarrow> ndarray" where
  "finite_nd s xs = \<lparr>shape = s, data = map Fin xs\<rparr>"

datatype error = ValueError | IndexError | PreconditionViolation | UpstreamFailure

text \<open>
  numpy's broadcasting rule, on the shapes read from the last axis backwards: two
  extents are compatible when they are equal or one of them is 1; a missing axis counts
  as 1. Incompatible shapes make the operation raise ValueError.
\<close>

fun broadcast_rev :: "nat list \<Rightarrow> nat list \<Rightarrow> nat list option" where
  "broadcast_rev [] ys = Some ys"
| "broadcast_rev (x # xs) [] = Some (x # xs)"
| "broadcast_rev (x # xs) (y # ys) =
     (if x = y \<or> y = 1 then map_option ((#) x) (broadcast_rev xs ys)
      else if x = 1 then map_option ((#) y) (broadcast_rev xs ys)
      else None)"

definition broadcast_shapes :: "nat list \<Rightarrow> nat list \<Rightarrow> nat list option" where
  "broadcast_shapes s t = map_option rev (broadcast_rev (rev s) (rev t))"

text \<open>
  The position, in an operand of (reversed) shape \<open>ss\<close>, of the entry that lands at
  flat position \<open>i\<close> of the result of (reversed) shape \<open>rs\<close>: an axis of extent 1, or a
  missing axis, is repeated.
\<close>

fun bidx :: "nat list \<Rightarrow> nat list \<Rightarrow> nat \<Rightarrow> nat" where
  "bidx (r # rs) (s # ss) i = (if s = 1 then 0 else i mod r) + s * bidx rs ss (i div r)"
| "bidx [] ss i = 0"
| "bidx rs [] i = 0"

definition nd_at :: "ndarray \<Rightarrow> nat list \<Rightarrow> nat \<Rightarrow> npfloat" where
  "nd_at a r i = data a ! bidx (rev r) (rev (shape a)) i"

text \<open>The same position in a plain list of entries, for arrays given by their entries.\<close>

definition pick :: "nat list \<Rightarrow> nat list \<Rightarrow> 'a list \<Rightarrow> nat \<Rightarrow> 'a" where
  "pick r s xs i = xs ! bidx (rev r) (rev s) i"

definition nd_binop ::
  "(npfloat \<Rightarrow> npfloat \<Rightarrow> npfloat) \<Rightarrow> ndarray \<Rightarrow> ndarray \<Rightarrow> error + ndarray" where
  "nd_binop f a b =
     (case broadcast_shapes (shape a) (shape b) of
        None \<Rightarrow> Inl ValueError
      | Some r \<Rightarrow>
          Inr \<lparr>shape = r, data = map (\<lambda>i. f (nd_at a r i) (nd_at b r i)) [0..<prod_list r]\<rparr>)"

definition nd_map :: "(npfloat \<Rightarrow> npfloat) \<Rightarrow> ndarray \<Rightarrow> ndarray" where
  "nd_map f a = \<lparr>shape = shape a, data = map f (data a)\<rparr>"

text \<open>\<open>a.reshape(-1, 1)\<close>: the entries as one column.\<close>

definition reshape_col :: "ndarray \<Rightarrow> ndarray" where
  "reshape_col a = \<lparr>shape = [length (data a), 1], data = data a\<rparr>"

text \<open>
  \<open>X[query_idx]\<close> for a sequence of row indices: the rows of \<open>X\<close> along its first axis,
  in the order of the indices. An index past the last row raises IndexError, and so does
  indexing an array of shape \<open>()\<close>.
\<close>

definition nd_row :: "ndarray \<Rightarrow> nat \<Rightarrow> npfloat list" where
  "nd_row X i = take (prod_list (tl (shape X))) (drop (i * prod_list (tl (shape X))) (data X))"

definition take_rows :: "ndarray \<Rightarrow> nat list \<Rightarrow> error + ndarray" where
  "take_rows X idx =
     (case shape X of
        [] \<Rightarrow> Inl IndexError
      | n # rest \<Rightarrow>
          if list_all (\<lambda>i. i < n) idx
          then Inr \<lparr>shape = length idx # rest, data = concat (map (nd_row X) idx)\<rparr>
          else Inl IndexError)"

section \<open>Acquisition functions\<close>

definition PI :: "(real \<Rightarrow> real) \<Rightarrow> ndarray \<Rightarrow> ndarray \<Rightarrow> real \<Rightarrow> real \<Rightarrow> error + ndarray" where
  "PI ndtr mean std max_val tradeoff =
     (case nd_binop fl_sub mean (scalar max_val) of Inl e \<Rightarrow> Inl e | Inr d0 \<Rightarrow>
     (case nd_binop fl_sub d0 (scalar tradeoff) of Inl e \<Rightarrow> Inl e | Inr d \<Rightarrow>
     (case nd_binop fl_div d std of Inl e \<Rightarrow> Inl e | Inr z \<Rightarrow>
      Inr (nd_map (fl_ndtr ndtr) z))))"

definition EI ::
  "(real \<Rightarrow> real) \<Rightarrow> (real \<Rightarrow> real) \<Rightarrow> ndarray \<Rightarrow> ndarray \<Rightarrow> real \<Rightarrow> real \<Rightarrow> error + ndarray" where
  "EI ndtr pdf mean std max_val tradeoff =
     (case nd_binop fl_sub mean (scalar max_val) of Inl e \<Rightarrow> Inl e | Inr d0 \<Rightarrow>
     (case nd_binop fl_sub d0 (scalar tradeoff) of Inl e \<Rightarrow> Inl e | Inr d \<Rightarrow>
     (case nd_binop fl_div d std of Inl e \<Rightarrow> Inl e | Inr z \<Rightarrow>
     (case nd_binop fl_mul d (nd_map (fl_ndtr ndtr) z) of Inl e \<Rightarrow> Inl e | Inr a \<Rightarrow>
     (case nd_binop fl_mul std (nd_map (fl_pdf pdf) z) of Inl e \<Rightarrow> Inl e | Inr b \<Rightarrow>
      nd_binop fl_add a b)))))"

definition UCB :: "ndarray \<Rightarrow> ndarray \<Rightarrow> real \<Rightarrow> error + ndarray" where
  "UCB mean std beta =
     (case nd_binop fl_mul (scalar beta) std of Inl e \<Rightarrow> Inl e | Inr b \<Rightarrow>
      nd_binop fl_add mean b)"

subsection \<open>The two library functions\<close>

text \<open>
  What \<open>EI\<close> computes at one entry, from the margin \<open>d = mean - max_val - tradeoff\<close> and
  the standard deviation of that entry (used to state the theorems).
\<close>

definition ei_score :: "(real \<Rightarrow> real) \<Rightarrow> (real \<Rightarrow> real) \<Rightarrow> real \<Rightarrow> real \<Rightarrow> real" where
  "ei_score ndtr pdf d sigma = d * ndtr (d / sigma) + sigma * pdf (d / sigma)"

text \<open>
  What the expected improvement needs of the two library functions: \<open>Phi\<close> is a
  distribution function with density \<open>psi\<close> (its derivative, non-negative, and \<open>Phi\<close>
  vanishes at minus infinity), and \<open>phi\<close> is non-negative with derivative \<open>- z * psi z\<close>.
  The standard normal distribution function and its density are such a pair with
  \<open>psi = phi\<close>, since the normal density satisfies \<open>phi' z = - z * phi z\<close>.
\<close>

definition normal_like :: "(real \<Rightarrow> real) \<Rightarrow> (real \<Rightarrow> real) \<Rightarrow> (real \<Rightarrow> real) \<Rightarrow> bool" where
  "normal_like psi Phi phi =
     ((\<forall>z. (Phi has_real_derivative psi z) (at z)) \<and>
      (\<forall>z. (phi has_real_derivative - z * psi z) (at z)) \<and>
      (\<forall>z. 0 \<le> psi z) \<and>
      (\<forall>z. 0 \<le> phi z) \<and>
      (Phi \<longlongrightarrow> 0) at_bot)"

section \<open>Adapters to the surrogate model\<close>

text \<open>
  The optimizer as this module uses it: \<open>predict(X, return_std=True)\<close>, which returns
  the means and the standard deviations or fails, and the best value seen \<open>y_max\<close>.
\<close>

record optimizer =
  predict :: "ndarray \<Rightarrow> error + (ndarray \<times> ndarray)"
  y_max :: real

definition optimizer_PI :: "(real \<Rightarrow> real) \<Rightarrow> optimizer \<Rightarrow> ndarray \<Rightarrow> real \<Rightarrow> error + ndarray" where
  "optimizer_PI ndtr opt X tradeoff =
     (case predict opt X of Inl e \<Rightarrow> Inl e | Inr (mean, std) \<Rightarrow>
      PI ndtr mean (reshape_col std) (y_max opt) tradeoff)"

definition optimizer_EI ::
  "(real \<Rightarrow> real) \<Rightarrow> (real \<Rightarrow> real) \<Rightarrow> optimizer \<Rightarrow> ndarray \<Rightarrow> real \<Rightarrow> error + ndarray" where
  "optimizer_EI ndtr pdf opt X tradeoff =
     (case predict opt X of Inl e \<Rightarrow> Inl e | Inr (mean, std) \<Rightarrow>
      EI ndtr pdf mean (reshape_col std) (y_max opt) tradeoff)"

definition optimizer_UCB :: "optimizer \<Rightarrow> ndarray \<Rightarrow> real \<Rightarrow> error + ndarray" where
  "optimizer_UCB opt X beta =
     (case predict opt X of Inl e \<Rightarrow> Inl e | Inr (mean, std) \<Rightarrow>
      UCB mean (reshape_col std) beta)"

section \<open>Query strategies\<close>

text \<open>
  Modelled from the spec: \<open>modAL.utils.selection.multi_argmax\<close> is imported by the module
  and is not among its sources. The spec's top-k Selector is given a score vector, one
  score per candidate, and returns the indices of the \<open>n_instances\<close> highest scores,
  highest first, ties broken by the lowest index; asking for more indices than there are
  scores is a precondition violation. The spec says nothing of an array that is not a
  score vector: the definition reads the entries in storage order, which is the order of
  the candidates for a vector or a column of scores, and nothing in this file is proved
  from what it does with any other array. \<open>argmax_from\<close> scans the candidates in order
  and keeps the best so far.
\<close>

fun argmax_from :: "npfloat list \<Rightarrow> nat \<Rightarrow> nat list \<Rightarrow> nat" where
  "argmax_from v b [] = b"
| "argmax_from v b (i # cs) = argmax_from v (if fl_less (v ! b) (v ! i) then i else b) cs"

text \<open>
  Modelled from the spec: the top-k Selector's loop, which takes the best of the
  remaining candidates \<open>k\<close> times.
\<close>

fun top_k :: "npfloat list \<Rightarrow> nat \<Rightarrow> nat list \<Rightarrow> nat list" where
  "top_k v 0 cs = []"
| "top_k v (Suc k) [] = []"
| "top_k v (Suc k) (c # cs) =
     (let b = argmax_from v c cs in b # top_k v k (remove1 b (c # cs)))"

text \<open>
  Modelled from the spec: the top-k Selector \<open>multi_argmax(values, n_instances)\<close>.
\<close>

definition multi_argmax :: "ndarray \<Rightarrow> nat \<Rightarrow> error + nat list" where
  "multi_argmax values n_instances =
     (if n_instances \<le> length (data values)
      then Inr (top_k (data values) n_instances [0..<length (data values)])
      else Inl PreconditionViolation)"

definition max_PI ::
  "(real \<Rightarrow> real) \<Rightarrow> optimizer \<Rightarrow> ndarray \<Rightarrow> real \<Rightarrow> nat \<Rightarrow> error + (nat list \<times> ndarray)" where
  "max_PI ndtr opt X tradeoff n_instances =
     (case optimizer_PI ndtr opt X tradeoff of Inl e \<Rightarrow> Inl e | Inr p \<Rightarrow>
     (case multi_argmax p n_instances of Inl e \<Rightarrow> Inl e | Inr query_idx \<Rightarrow>
     (case take_rows X query_idx of Inl e \<Rightarrow> Inl e | Inr rows \<Rightarrow>
      Inr (query_idx, rows))))"

definition max_EI ::
  "(real \<Rightarrow> real) \<Rightarrow> (real \<Rightarrow> real) \<Rightarrow> optimizer \<Rightarrow> ndarray \<Rightarrow> real \<Rightarrow> nat \<Rightarrow>
     error + (nat list \<times> ndarray)" where
  "max_EI ndtr pdf opt X tradeoff n_instances =
     (case optimizer_EI ndtr pdf opt X tradeoff of Inl e \<Rightarrow> Inl e | Inr ei \<Rightarrow>
     (case multi_argmax ei n_instances of Inl e \<Rightarrow> Inl e | Inr query_idx \<Rightarrow>
     (case take_rows X query_idx of Inl e \<Rightarrow> Inl e | Inr rows \<Rightarrow>
      Inr (query_idx, rows))))"

definition max_UCB :: "optimizer \<Rightarrow> ndarray \<Rightarrow> real \<Rightarrow> nat \<Rightarrow> error + (nat list \<times> ndarray)" where
  "max_UCB opt X beta n_instances =
     (case optimizer_UCB opt X beta of Inl e \<Rightarrow> Inl e | Inr ucb \<Rightarrow>
     (case multi_argmax ucb n_instances of Inl e \<Rightarrow> Inl e | Inr query_idx \<Rightarrow>
     (case take_rows X query_idx of Inl e \<Rightarrow> Inl e | Inr rows \<Rightarrow>
      Inr (query_idx, rows))))"

section \<open>Example inputs\<close>

text \<open>
  A surrogate fitted on a flat target vector, as scikit-learn's Gaussian process
  regressor answers then: the means come back with shape \<open>(2,)\<close>, and so do the
  standard deviations.
\<close>

definition flat_surrogate :: optimizer where
  "flat_surrogate =
     \<lparr>predict = (\<lambda>X. Inr (finite_nd [2] [0, 0], finite_nd [2] [1, 5])), y_max = 0\<rparr>"


text \<open>
  The same predictions from a surrogate fitted on a column of targets: the means come
  back as a column of shape \<open>(3, 1)\<close>.
\<close>

definition column_surrogate :: optimizer where
  "column_surrogate =
     \<lparr>predict = (\<lambda>X. Inr (finite_nd [3, 1] [1, 2, 1 / 2], finite_nd [3] [1 / 10, 1 / 10, 1 / 10])),
      y_max = 3 / 2\<rparr>"

text \<open>A surrogate that is certain of its first prediction: the first standard deviation is 0.\<close>

definition zero_std_surrogate :: optimizer where
  "zero_std_surrogate =
     \<lparr>predict = (\<lambda>X. Inr (finite_nd [2, 1] [2, 1], finite_nd [2] [0, 1])), y_max = 3 / 2\<rparr>"

text \<open>
  Two surrogates whose means and standard deviations do not go together: three means
  with two standard deviations, and a 3-by-2 array of means with two standard deviations.
\<close>

definition mismatch_surrogate :: optimizer where
  "mismatch_surrogate =
     \<lparr>predict = (\<lambda>X. Inr (finite_nd [3] [0, 0, 0], finite_nd [2] [1, 1])), y_max = 0\<rparr>"

definition incompatible_surrogate :: optimizer where
  "incompatible_surrogate =
     \<lparr>predict = (\<lambda>X. Inr (finite_nd [3, 2] [0, 0, 0, 0, 0, 0], finite_nd [2] [1, 1])), y_max = 0\<rparr>"

text \<open>Candidate batches of two and of three rows, one feature each.\<close>

definition X2 :: ndarray where
  "X2 = finite_nd [2, 1] [10, 20]"

definition X3 :: ndarray where
  "X3 = finite_nd [3, 1] [10, 20, 30]"

text \<open>
  Concrete functions in the place of \<open>ndtr\<close> and \<open>pdf\<close> for the examples: the
  distribution function \<open>ndtr_standin\<close> of the density \<open>density_standin\<close>, and the
  function \<open>pdf_standin\<close> that is to it what the normal density is to the normal
  distribution function (see \<open>normal_like\<close>). They only ever instantiate a theorem or an
  example.
\<close>

definition ndtr_standin :: "real \<Rightarrow> real" where
  "ndtr_standin x = (1 + x / sqrt (1 + x\<^sup>2)) / 2"

definition pdf_standin :: "real \<Rightarrow> real" where
  "pdf_standin x = 1 / (2 * sqrt (1 + x\<^sup>2))"

definition density_standin :: "real \<Rightarrow> real" where
  "density_standin x = 1 / (2 * (1 + x\<^sup>2) * sqrt (1 + x\<^sup>2))"

section \<open>Broadcasting lemmas\<close>

lemma bidx_nil: "bidx rs [] i = 0"
  by (cases rs) simp_all

lemma bidx_same: "i < prod_list rs \<Longrightarrow> bidx rs rs i = i"
proof (induction rs arbitrary: i)
  case Nil
  then show ?case by simp
next
  case (Cons r rs)
  from Cons.prems have lt: "i < prod_list rs * r" by (simp add: mult.commute)
  then have "i div r < prod_list rs" by (rule less_mult_imp_div_less)
  then have "bidx rs rs (i div r) = i div r" by (rule Cons.IH)
  then show ?case by simp
qed

lemma broadcast_rev_same: "broadcast_rev xs xs = Some xs"
  by (induction xs) simp_all

lemma broadcast_rev_nil: "broadcast_rev xs [] = Some xs"
  by (cases xs) simp_all


lemma bidx_left_bound:
  "broadcast_rev xs ys = Some rs \<Longrightarrow> i < prod_list rs \<Longrightarrow> bidx rs xs i < prod_list xs"
proof (induction xs ys arbitrary: rs i rule: broadcast_rev.induct)
  case (1 ys)
  then show ?case by (simp add: bidx_nil)
next
  case (2 x xs)
  then show ?case by (simp add: bidx_same del: bidx.simps)
next
  case (3 x xs y ys)
  from "3.prems"(1) obtain z rs' where rs: "rs = z # rs'" and rec: "broadcast_rev xs ys = Some rs'"
    and z: "x = 1 \<or> z = x"
    by (auto split: if_splits)
  from "3.prems"(2) rs have lt: "i < prod_list rs' * z" by (simp add: mult.commute)
  then have d: "i div z < prod_list rs'" by (rule less_mult_imp_div_less)
  from lt have zpos: "0 < z" by (cases z) auto
  have ih: "bidx rs' xs (i div z) < prod_list xs"
    using "3.prems"(1) rec d by (auto intro: "3.IH" split: if_splits)
  have j: "(if x = 1 then 0 else i mod z) < x"
    using z zpos by auto
  have "(if x = 1 then 0 else i mod z) + x * bidx rs' xs (i div z) < x + x * bidx rs' xs (i div z)"
    using j by simp
  also have "\<dots> = x * Suc (bidx rs' xs (i div z))" by simp
  also have "\<dots> \<le> x * prod_list xs" using ih by (intro mult_le_mono2) simp
  finally show ?case using rs by simp
qed

lemma bidx_right_bound:
  "broadcast_rev xs ys = Some rs \<Longrightarrow> i < prod_list rs \<Longrightarrow> bidx rs ys i < prod_list ys"
proof (induction xs ys arbitrary: rs i rule: broadcast_rev.induct)
  case (1 ys)
  then show ?case by (simp add: bidx_same del: bidx.simps)
next
  case (2 x xs)
  then show ?case by (simp add: bidx_nil del: bidx.simps)
next
  case (3 x xs y ys)
  from "3.prems"(1) obtain z rs' where rs: "rs = z # rs'" and rec: "broadcast_rev xs ys = Some rs'"
    and z: "y = 1 \<or> z = y"
    by (auto split: if_splits)
  from "3.prems"(2) rs have lt: "i < prod_list rs' * z" by (simp add: mult.commute)
  then have d: "i div z < prod_list rs'" by (rule less_mult_imp_div_less)
  from lt have zpos: "0 < z" by (cases z) auto
  have ih: "bidx rs' ys (i div z) < prod_list ys"
    using "3.prems"(1) rec d by (auto intro: "3.IH" split: if_splits)
  have j: "(if y = 1 then 0 else i mod z) < y"
    using z zpos by auto
  have "(if y = 1 then 0 else i mod z) + y * bidx rs' ys (i div z) < y + y * bidx rs' ys (i div z)"
    using j by simp
  also have "\<dots> = y * Suc (bidx rs' ys (i div z))" by simp
  also have "\<dots> \<le> y * prod_list ys" using ih by (intro mult_le_mono2) simp
  finally show ?case using rs by simp
qed

lemma broadcast_rev_absorb_left:
  "broadcast_rev xs ys = Some rs \<Longrightarrow> broadcast_rev xs rs = Some rs"
proof (induction xs ys arbitrary: rs rule: broadcast_rev.induct)
  case (1 ys)
  then show ?case by simp
next
  case (2 x xs)
  then have "rs = x # xs" by simp
  then show ?case by (simp only: broadcast_rev_same)
next
  case (3 x xs y ys)
  then show ?case by (auto split: if_splits)
qed

lemma broadcast_rev_absorb_right:
  "broadcast_rev xs ys = Some rs \<Longrightarrow> broadcast_rev ys rs = Some rs"
proof (induction xs ys arbitrary: rs rule: broadcast_rev.induct)
  case (1 ys)
  then show ?case by (simp add: broadcast_rev_same)
next
  case (2 x xs)
  then show ?case by simp
next
  case (3 x xs y ys)
  then show ?case by (auto split: if_splits)
qed


lemma broadcast_shapes_scalar_right: "broadcast_shapes s [] = Some s"
  by (simp add: broadcast_shapes_def broadcast_rev_nil)

lemma broadcast_shapes_scalar_left: "broadcast_shapes [] s = Some s"
  by (simp add: broadcast_shapes_def)

lemma broadcast_shapes_same: "broadcast_shapes s s = Some s"
  by (simp add: broadcast_shapes_def broadcast_rev_same)

lemma broadcast_shapes_rev:
  "broadcast_shapes s t = Some r \<Longrightarrow> broadcast_rev (rev s) (rev t) = Some (rev r)"
  by (auto simp: broadcast_shapes_def)

lemma broadcast_shapes_absorb_left:
  "broadcast_shapes s t = Some r \<Longrightarrow> broadcast_shapes s r = Some r"
  by (drule broadcast_shapes_rev, drule broadcast_rev_absorb_left)
     (simp add: broadcast_shapes_def)

lemma broadcast_shapes_absorb_right:
  "broadcast_shapes s t = Some r \<Longrightarrow> broadcast_shapes t r = Some r"
  by (drule broadcast_shapes_rev, drule broadcast_rev_absorb_right)
     (simp add: broadcast_shapes_def)

lemma nd_binop_Inr:
  "broadcast_shapes (shape a) (shape b) = Some r \<Longrightarrow>
   nd_binop f a b =
     Inr \<lparr>shape = r, data = map (\<lambda>i. f (nd_at a r i) (nd_at b r i)) [0..<prod_list r]\<rparr>"
  by (simp add: nd_binop_def)

lemma nd_at_same: "i < prod_list (shape a) \<Longrightarrow> nd_at a (shape a) i = data a ! i"
  by (simp add: nd_at_def bidx_same)

lemma nd_at_scalar: "nd_at (scalar c) r i = Fin c"
  by (simp add: nd_at_def scalar_def bidx_nil)

lemma map_nth_upt: "map (\<lambda>i. g (xs ! i)) [0..<length xs] = map g xs"
  by (rule nth_equalityI) simp_all

lemma nd_binop_scalar_right:
  assumes "well_shaped a"
  shows "nd_binop f a (scalar c) = Inr \<lparr>shape = shape a, data = map (\<lambda>x. f x (Fin c)) (data a)\<rparr>"
proof -
  have bs: "broadcast_shapes (shape a) (shape (scalar c)) = Some (shape a)"
    by (simp add: scalar_def broadcast_shapes_scalar_right)
  have "map (\<lambda>i. f (nd_at a (shape a) i) (nd_at (scalar c) (shape a) i)) [0..<prod_list (shape a)]
      = map (\<lambda>i. f (data a ! i) (Fin c)) [0..<length (data a)]"
    using assms by (simp add: well_shaped_def nd_at_same nd_at_scalar)
  also have "\<dots> = map (\<lambda>x. f x (Fin c)) (data a)"
    by (rule map_nth_upt)
  finally show ?thesis
    by (simp add: nd_binop_Inr [OF bs])
qed

lemma nd_binop_scalar_left:
  assumes "well_shaped a"
  shows "nd_binop f (scalar c) a = Inr \<lparr>shape = shape a, data = map (f (Fin c)) (data a)\<rparr>"
proof -
  have bs: "broadcast_shapes (shape (scalar c)) (shape a) = Some (shape a)"
    by (simp add: scalar_def broadcast_shapes_scalar_left)
  have "map (\<lambda>i. f (nd_at (scalar c) (shape a) i) (nd_at a (shape a) i)) [0..<prod_list (shape a)]
      = map (\<lambda>i. f (Fin c) (data a ! i)) [0..<length (data a)]"
    using assms by (simp add: well_shaped_def nd_at_same nd_at_scalar)
  also have "\<dots> = map (f (Fin c)) (data a)"
    by (rule map_nth_upt)
  finally show ?thesis
    by (simp add: nd_binop_Inr [OF bs])
qed

lemma nd_at_finite_left:
  assumes "broadcast_shapes s t = Some r" "length xs = prod_list s" "i < prod_list r"
  shows "nd_at (finite_nd s xs) r i = Fin (xs ! bidx (rev r) (rev s) i)"
proof -
  have "bidx (rev r) (rev s) i < prod_list (rev s)"
    using broadcast_shapes_rev [OF assms(1)] assms(3) by (intro bidx_left_bound) simp_all
  then show ?thesis using assms(2) by (simp add: nd_at_def finite_nd_def)
qed

lemma nd_at_finite_right:
  assumes "broadcast_shapes s t = Some r" "length ys = prod_list t" "i < prod_list r"
  shows "nd_at (finite_nd t ys) r i = Fin (ys ! bidx (rev r) (rev t) i)"
proof -
  have "bidx (rev r) (rev t) i < prod_list (rev t)"
    using broadcast_shapes_rev [OF assms(1)] assms(3) by (intro bidx_right_bound) simp_all
  then show ?thesis using assms(2) by (simp add: nd_at_def finite_nd_def)
qed


lemma PI_shape:
  assumes "broadcast_shapes (shape mean) (shape std) = Some r"
  shows "\<exists>p. PI ndtr mean std mv t = Inr p \<and> shape p = r \<and> length (data p) = prod_list r"
  using assms
  by (simp add: PI_def nd_binop_def scalar_def broadcast_shapes_scalar_right nd_map_def)

lemma PI_fails:
  assumes "broadcast_shapes (shape mean) (shape std) = None"
  shows "PI ndtr mean std mv t = Inl ValueError"
  using assms
  by (simp add: PI_def nd_binop_def scalar_def broadcast_shapes_scalar_right)

lemma EI_shape:
  assumes "broadcast_shapes (shape mean) (shape std) = Some r"
  shows "\<exists>p. EI ndtr pdf mean std mv t = Inr p \<and> shape p = r \<and> length (data p) = prod_list r"
  using assms broadcast_shapes_absorb_left [OF assms] broadcast_shapes_absorb_right [OF assms]
  by (simp add: EI_def nd_binop_def scalar_def broadcast_shapes_scalar_right nd_map_def
      broadcast_shapes_same)

lemma EI_fails:
  assumes "broadcast_shapes (shape mean) (shape std) = None"
  shows "EI ndtr pdf mean std mv t = Inl ValueError"
  using assms
  by (simp add: EI_def nd_binop_def scalar_def broadcast_shapes_scalar_right)

lemma UCB_shape:
  assumes "broadcast_shapes (shape mean) (shape std) = Some r"
  shows "\<exists>p. UCB mean std beta = Inr p \<and> shape p = r \<and> length (data p) = prod_list r"
  using assms
  by (simp add: UCB_def nd_binop_def scalar_def broadcast_shapes_scalar_left)

lemma UCB_fails:
  assumes "broadcast_shapes (shape mean) (shape std) = None"
  shows "UCB mean std beta = Inl ValueError"
  using assms
  by (simp add: UCB_def nd_binop_def scalar_def broadcast_shapes_scalar_left)

lemma well_shaped_finite_nd: "length xs = prod_list s \<Longrightarrow> well_shaped (finite_nd s xs)"
  by (simp add: well_shaped_def finite_nd_def)

lemma sub_scalar_finite:
  assumes "length xs = prod_list s"
  shows "nd_binop fl_sub (finite_nd s xs) (scalar c) = Inr (finite_nd s (map (\<lambda>x. x - c) xs))"
  using nd_binop_scalar_right [OF well_shaped_finite_nd [OF assms], of fl_sub c]
  by (simp add: finite_nd_def fl_sub_def comp_def)

lemma mul_scalar_finite:
  assumes "length xs = prod_list s"
  shows "nd_binop fl_mul (scalar c) (finite_nd s xs) = Inr (finite_nd s (map (\<lambda>x. c * x) xs))"
  using nd_binop_scalar_left [OF well_shaped_finite_nd [OF assms], of fl_mul c]
  by (simp add: finite_nd_def comp_def)

lemma nd_binop_finite:
  assumes "broadcast_shapes s t = Some r" "length xs = prod_list s" "length ys = prod_list t"
  shows "nd_binop f (finite_nd s xs) (finite_nd t ys) =
    Inr \<lparr>shape = r, data = map (\<lambda>i. f (Fin (pick r s xs i)) (Fin (pick r t ys i))) [0..<prod_list r]\<rparr>"
proof -
  have bs: "broadcast_shapes (shape (finite_nd s xs)) (shape (finite_nd t ys)) = Some r"
    using assms(1) by (simp add: finite_nd_def)
  have "map (\<lambda>i. f (nd_at (finite_nd s xs) r i) (nd_at (finite_nd t ys) r i)) [0..<prod_list r]
      = map (\<lambda>i. f (Fin (pick r s xs i)) (Fin (pick r t ys i))) [0..<prod_list r]"
    using assms by (simp add: nd_at_finite_left nd_at_finite_right pick_def)
  then show ?thesis by (simp add: nd_binop_Inr [OF bs])
qed

lemma pick_right_mem:
  assumes "broadcast_shapes s t = Some r" "length ys = prod_list t" "i < prod_list r"
  shows "pick r t ys i \<in> set ys"
proof -
  have "bidx (rev r) (rev t) i < prod_list (rev t)"
    using broadcast_shapes_rev [OF assms(1)] assms(3) by (intro bidx_right_bound) simp_all
  then show ?thesis using assms(2) by (simp add: pick_def)
qed

lemma pick_same: "i < prod_list r \<Longrightarrow> pick r r xs i = xs ! i"
  by (simp add: pick_def bidx_same)

lemma div_finite:
  assumes bs: "broadcast_shapes s t = Some r" and lx: "length xs = prod_list s"
    and ly: "length ys = prod_list t" and nz: "0 \<notin> set ys"
  shows "nd_binop fl_div (finite_nd s xs) (finite_nd t ys) =
    Inr (finite_nd r (map (\<lambda>i. pick r s xs i / pick r t ys i) [0..<prod_list r]))"
proof -
  have "pick r t ys i \<noteq> 0" if "i < prod_list r" for i
    using pick_right_mem [OF bs ly that] nz by auto
  then have eq: "map (\<lambda>i. fl_div (Fin (pick r s xs i)) (Fin (pick r t ys i))) [0..<prod_list r]
     = map Fin (map (\<lambda>i. pick r s xs i / pick r t ys i) [0..<prod_list r])"
    by simp
  show ?thesis
    unfolding nd_binop_finite [OF bs lx ly] eq by (simp add: finite_nd_def)
qed

lemma margin_finite:
  assumes "length ms = prod_list s"
  shows "nd_binop fl_sub (finite_nd s ms) (scalar max_val) =
           Inr (finite_nd s (map (\<lambda>x. x - max_val) ms))"
    and "nd_binop fl_sub (finite_nd s (map (\<lambda>x. x - max_val) ms)) (scalar tradeoff) =
           Inr (finite_nd s (map (\<lambda>x. x - max_val - tradeoff) ms))"
  using assms sub_scalar_finite [of "map (\<lambda>x. x - max_val) ms" s tradeoff]
  by (simp_all add: sub_scalar_finite comp_def)

lemma pick_map:
  assumes "broadcast_shapes s t = Some r" "length xs = prod_list s" "i < prod_list r"
  shows "pick r s (map g xs) i = g (pick r s xs i)"
proof -
  have "bidx (rev r) (rev s) i < prod_list (rev s)"
    using broadcast_shapes_rev [OF assms(1)] assms(3) by (intro bidx_left_bound) simp_all
  then show ?thesis using assms(2) by (simp add: pick_def)
qed

lemma z_finite:
  assumes bs: "broadcast_shapes s t = Some r" and lx: "length ms = prod_list s"
    and ly: "length ss = prod_list t" and nz: "0 \<notin> set ss"
  shows "nd_binop fl_div (finite_nd s (map (\<lambda>x. x - max_val - tradeoff) ms)) (finite_nd t ss) =
    Inr (finite_nd r (map (\<lambda>i. (pick r s ms i - max_val - tradeoff) / pick r t ss i)
      [0..<prod_list r]))"
proof -
  let ?d = "map (\<lambda>x. x - max_val - tradeoff) ms"
  have ld: "length ?d = prod_list s" using lx by simp
  have eq: "map (\<lambda>i. pick r s ?d i / pick r t ss i) [0..<prod_list r]
      = map (\<lambda>i. (pick r s ms i - max_val - tradeoff) / pick r t ss i) [0..<prod_list r]"
    by (simp add: pick_map [OF bs lx])
  show ?thesis
    by (simp only: div_finite [OF bs ld ly nz] eq)
qed

lemma nd_map_finite: "nd_map (fl_ndtr g) (finite_nd r xs) = finite_nd r (map g xs)"
  by (simp add: nd_map_def finite_nd_def)

lemma nd_map_pdf_finite: "nd_map (fl_pdf g) (finite_nd r xs) = finite_nd r (map g xs)"
  by (simp add: nd_map_def finite_nd_def)

lemma PI_finite:
  assumes bs: "broadcast_shapes s t = Some r" and lx: "length ms = prod_list s"
    and ly: "length ss = prod_list t" and nz: "0 \<notin> set ss"
  shows "PI ndtr (finite_nd s ms) (finite_nd t ss) max_val tradeoff =
    Inr (finite_nd r (map (\<lambda>i. ndtr ((pick r s ms i - max_val - tradeoff) / pick r t ss i))
      [0..<prod_list r]))"
  by (simp only: PI_def margin_finite [OF lx] z_finite [OF bs lx ly nz] sum.case nd_map_finite
      map_map comp_def)

lemma mul_finite:
  assumes "broadcast_shapes s t = Some r" "length xs = prod_list s" "length ys = prod_list t"
  shows "nd_binop fl_mul (finite_nd s xs) (finite_nd t ys) =
    Inr (finite_nd r (map (\<lambda>i. pick r s xs i * pick r t ys i) [0..<prod_list r]))"
  unfolding nd_binop_finite [OF assms] by (simp add: finite_nd_def)

lemma add_finite:
  assumes "broadcast_shapes s t = Some r" "length xs = prod_list s" "length ys = prod_list t"
  shows "nd_binop fl_add (finite_nd s xs) (finite_nd t ys) =
    Inr (finite_nd r (map (\<lambda>i. pick r s xs i + pick r t ys i) [0..<prod_list r]))"
  unfolding nd_binop_finite [OF assms] by (simp add: finite_nd_def)

lemma pick_map_right:
  assumes "broadcast_shapes s t = Some r" "length ys = prod_list t" "i < prod_list r"
  shows "pick r t (map g ys) i = g (pick r t ys i)"
  using pick_map [OF broadcast_shapes_absorb_right [OF assms(1)] assms(2) assms(3)] .

lemma EI_finite:
  assumes bs: "broadcast_shapes s t = Some r" and lx: "length ms = prod_list s"
    and ly: "length ss = prod_list t" and nz: "0 \<notin> set ss"
  shows "EI ndtr pdf (finite_nd s ms) (finite_nd t ss) max_val tradeoff =
    Inr (finite_nd r (map (\<lambda>i. ei_score ndtr pdf (pick r s ms i - max_val - tradeoff) (pick r t ss i))
      [0..<prod_list r]))"
proof -
  let ?d = "map (\<lambda>x. x - max_val - tradeoff) ms"
  let ?z = "map (\<lambda>i. (pick r s ms i - max_val - tradeoff) / pick r t ss i) [0..<prod_list r]"
  let ?a = "map (\<lambda>i. (pick r s ms i - max_val - tradeoff) *
        ndtr ((pick r s ms i - max_val - tradeoff) / pick r t ss i)) [0..<prod_list r]"
  let ?b = "map (\<lambda>i. pick r t ss i *
        pdf ((pick r s ms i - max_val - tradeoff) / pick r t ss i)) [0..<prod_list r]"
  have ld: "length ?d = prod_list s" using lx by simp
  have lz: "length (map ndtr ?z) = prod_list r" "length (map pdf ?z) = prod_list r" by simp_all
  have la: "length ?a = prod_list r" "length ?b = prod_list r" by simp_all
  have ea: "map (\<lambda>i. pick r s ?d i * pick r r (map ndtr ?z) i) [0..<prod_list r] = ?a"
    by (simp add: pick_map [OF bs lx] pick_same)
  have eb: "map (\<lambda>i. pick r t ss i * pick r r (map pdf ?z) i) [0..<prod_list r] = ?b"
    by (simp add: pick_same)
  have ec: "map (\<lambda>i. pick r r ?a i + pick r r ?b i) [0..<prod_list r] =
      map (\<lambda>i. ei_score ndtr pdf (pick r s ms i - max_val - tradeoff) (pick r t ss i))
        [0..<prod_list r]"
    by (simp add: pick_same ei_score_def)
  have a: "nd_binop fl_mul (finite_nd s ?d) (finite_nd r (map ndtr ?z)) = Inr (finite_nd r ?a)"
    by (simp only: mul_finite [OF broadcast_shapes_absorb_left [OF bs] ld lz(1)] ea)
  have b: "nd_binop fl_mul (finite_nd t ss) (finite_nd r (map pdf ?z)) = Inr (finite_nd r ?b)"
    by (simp only: mul_finite [OF broadcast_shapes_absorb_right [OF bs] ly lz(2)] eb)
  have c: "nd_binop fl_add (finite_nd r ?a) (finite_nd r ?b) =
      Inr (finite_nd r (map (\<lambda>i. ei_score ndtr pdf (pick r s ms i - max_val - tradeoff)
        (pick r t ss i)) [0..<prod_list r]))"
    by (simp only: add_finite [OF broadcast_shapes_same la] ec)
  show ?thesis
    by (simp only: EI_def margin_finite [OF lx] z_finite [OF bs lx ly nz] sum.case nd_map_finite
         nd_map_pdf_finite a b c)
qed

lemma UCB_finite:
  assumes bs: "broadcast_shapes s t = Some r" and lx: "length ms = prod_list s"
    and ly: "length ss = prod_list t"
  shows "UCB (finite_nd s ms) (finite_nd t ss) beta =
    Inr (finite_nd r (map (\<lambda>i. pick r s ms i + beta * pick r t ss i) [0..<prod_list r]))"
proof -
  have lb: "length (map (\<lambda>x. beta * x) ss) = prod_list t" using ly by simp
  have eq: "map (\<lambda>i. pick r s ms i + pick r t (map (\<lambda>x. beta * x) ss) i) [0..<prod_list r] =
      map (\<lambda>i. pick r s ms i + beta * pick r t ss i) [0..<prod_list r]"
    by (simp add: pick_map_right [OF bs ly])
  show ?thesis
    by (simp only: UCB_def mul_scalar_finite [OF ly] sum.case add_finite [OF bs lx lb] eq)
qed

lemma fl_add_zero: "fl_add x (Fin 0) = x"
  by (cases x) simp_all

lemma upt_2: "[0..<2] = [0, Suc 0]"
  by (simp add: upt_rec numeral_2_eq_2)

section \<open>The improvement kernel is non-negative\<close>

lemma normal_like_mono:
  assumes "normal_like psi Phi phi" "x \<le> y"
  shows "Phi x \<le> Phi y"
proof (rule DERIV_nonneg_imp_nondecreasing [OF assms(2)])
  fix z
  show "\<exists>d. (Phi has_real_derivative d) (at z) \<and> 0 \<le> d"
    using assms(1) by (auto simp: normal_like_def)
qed

lemma normal_like_below:
  assumes "normal_like psi Phi phi" "0 < e"
  shows "\<exists>w\<le>z. Phi w < e"
proof -
  have "eventually (\<lambda>w. Phi w < e) at_bot"
    using assms by (intro order_tendstoD) (auto simp: normal_like_def)
  then obtain N where N: "\<forall>w\<le>N. Phi w < e"
    by (auto simp: eventually_at_bot_linorder)
  then have "min N z \<le> z \<and> Phi (min N z) < e" by simp
  then show ?thesis by blast
qed

lemma normal_like_nonneg:
  assumes "normal_like psi Phi phi"
  shows "0 \<le> Phi z"
proof (rule ccontr)
  assume "\<not> 0 \<le> Phi z"
  then have neg: "Phi z < 0" by simp
  have "eventually (\<lambda>w. Phi z < Phi w) at_bot"
    using assms neg by (intro order_tendstoD) (auto simp: normal_like_def)
  then obtain N where N: "\<forall>w\<le>N. Phi z < Phi w"
    by (auto simp: eventually_at_bot_linorder)
  then have "Phi z < Phi (min N z)" by simp
  moreover have "Phi (min N z) \<le> Phi z"
    by (rule normal_like_mono [OF assms]) simp
  ultimately show False by simp
qed

lemma mills_deriv:
  assumes "normal_like psi Phi phi" "w < 0"
  shows "((\<lambda>u. phi u / (- u) - Phi u) has_real_derivative phi w / w\<^sup>2) (at w)"
proof -
  have d1: "(Phi has_real_derivative psi w) (at w)"
    and d2: "(phi has_real_derivative - w * psi w) (at w)"
    using assms(1) by (auto simp: normal_like_def)
  have "((\<lambda>u. phi u / (- u) - Phi u) has_real_derivative
      ((- w * psi w) * (- w) - phi w * (- 1)) / ((- w) * (- w)) - psi w) (at w)"
    using assms(2) by (intro derivative_intros d1 d2) auto
  moreover have "((- w * psi w) * (- w) - phi w * (- 1)) / ((- w) * (- w)) - psi w = phi w / w\<^sup>2"
    using assms(2) by (simp add: field_simps power2_eq_square)
  ultimately show ?thesis by simp
qed

lemma mills_bound:
  assumes np: "normal_like psi Phi phi"
  shows "0 \<le> z * Phi z + phi z"
proof (cases "0 \<le> z")
  case True
  then show ?thesis
    using normal_like_nonneg [OF np, of z] np by (simp add: normal_like_def)
next
  case False
  then have z: "z < 0" by simp
  let ?g = "\<lambda>u. phi u / (- u) - Phi u"
  have g_mono: "?g w \<le> ?g z" if "w \<le> z" for w
  proof (rule DERIV_nonneg_imp_nondecreasing [OF that])
    fix u assume "w \<le> u" "u \<le> z"
    then have u: "u < 0" using z by simp
    have "0 \<le> phi u / u\<^sup>2" using np by (simp add: normal_like_def)
    then show "\<exists>d. (?g has_real_derivative d) (at u) \<and> 0 \<le> d"
      using mills_deriv [OF np u] by blast
  qed
  have "0 \<le> ?g z"
  proof (rule ccontr)
    assume "\<not> 0 \<le> ?g z"
    then have e: "0 < - ?g z" by simp
    from normal_like_below [OF np e, of z] obtain w where w: "w \<le> z" "Phi w < - ?g z"
      by blast
    have "0 \<le> phi w" "0 < - w" using np w(1) z by (simp_all add: normal_like_def)
    then have "0 \<le> phi w / (- w)" by (intro divide_nonneg_pos)
    then have "- Phi w \<le> ?g w" by simp
    also have "\<dots> \<le> ?g z" by (rule g_mono [OF w(1)])
    finally show False using w(2) by simp
  qed
  then have le: "Phi z \<le> phi z / (- z)" by simp
  have nz: "0 < - z" using z by simp
  from le have "Phi z * (- z) \<le> phi z" by (simp only: pos_le_divide_eq [OF nz])
  then show ?thesis by (simp add: mult.commute)
qed

lemma ei_score_nonneg:
  assumes "normal_like psi Phi phi" "0 < sigma"
  shows "0 \<le> ei_score Phi phi d sigma"
proof -
  have "ei_score Phi phi d sigma = sigma * ((d / sigma) * Phi (d / sigma) + phi (d / sigma))"
    using assms(2) by (simp add: ei_score_def field_simps)
  then show ?thesis
    using mills_bound [OF assms(1), of "d / sigma"] assms(2) by simp
qed

section \<open>The stand-in functions\<close>

lemma sqrt_pos1: "0 < sqrt (1 + x\<^sup>2)"
  by (simp add: add_pos_nonneg)

lemma sqrt_ge_abs: "\<bar>x\<bar> \<le> sqrt (1 + x\<^sup>2)"
  by (rule real_le_rsqrt) simp

lemma ndtr_standin_range: "0 \<le> ndtr_standin x \<and> ndtr_standin x \<le> 1"
proof -
  have p: "0 < sqrt (1 + x\<^sup>2)" by (rule sqrt_pos1)
  have a: "\<bar>x\<bar> \<le> sqrt (1 + x\<^sup>2)" by (rule sqrt_ge_abs)
  have "- 1 \<le> x / sqrt (1 + x\<^sup>2)" using p a by (subst pos_le_divide_eq) auto
  moreover have "x / sqrt (1 + x\<^sup>2) \<le> 1" using p a by (subst pos_divide_le_eq) auto
  ultimately show ?thesis by (simp add: ndtr_standin_def)
qed

lemma pdf_standin_range: "0 \<le> pdf_standin x \<and> pdf_standin x \<le> 1 / 2"
proof -
  have "1 \<le> sqrt (1 + x\<^sup>2)" by simp
  then have "1 / sqrt (1 + x\<^sup>2) \<le> 1" using sqrt_pos1 [of x]
    by (subst pos_divide_le_eq) auto
  then show ?thesis using sqrt_pos1 [of x] by (simp add: pdf_standin_def)
qed

lemma density_standin_nonneg: "0 \<le> density_standin x"
  using sqrt_pos1 [of x] by (simp add: density_standin_def)

lemma sqrt_deriv:
  fixes z :: real
  shows "((\<lambda>x. sqrt (1 + x\<^sup>2)) has_real_derivative z / sqrt (1 + z\<^sup>2)) (at z)"
proof -
  have p: "0 < 1 + z\<^sup>2" by (simp add: add_pos_nonneg)
  have h1: "((\<lambda>x. 1 + x\<^sup>2) has_real_derivative 2 * z) (at z)"
    by (auto intro!: derivative_eq_intros)
  have h2: "(sqrt has_real_derivative inverse (sqrt (1 + z\<^sup>2)) / 2) (at (1 + z\<^sup>2))"
    using p by (rule DERIV_real_sqrt)
  have "((\<lambda>x. sqrt (1 + x\<^sup>2)) has_real_derivative (inverse (sqrt (1 + z\<^sup>2)) / 2) * (2 * z)) (at z)"
    by (rule DERIV_chain2 [OF h2 h1])
  moreover have "(inverse (sqrt (1 + z\<^sup>2)) / 2) * (2 * z) = z / sqrt (1 + z\<^sup>2)"
    by (simp add: field_simps)
  ultimately show ?thesis by (simp only:)
qed

lemma ndtr_standin_deriv_raw:
  fixes z :: real
  shows "((\<lambda>x. (1 + x / sqrt (1 + x\<^sup>2)) / 2) has_real_derivative
    1 / (2 * (1 + z\<^sup>2) * sqrt (1 + z\<^sup>2))) (at z)"
proof -
  let ?s = "sqrt (1 + z\<^sup>2)"
  have p: "0 < 1 + z\<^sup>2" by (simp add: add_pos_nonneg)
  have s: "0 < ?s" using p by simp
  have sq: "?s * ?s = 1 + z\<^sup>2" using p by simp
  have "((\<lambda>x. x / sqrt (1 + x\<^sup>2)) has_real_derivative (1 * ?s - z * (z / ?s)) / (?s * ?s)) (at z)"
    using s by (intro DERIV_divide sqrt_deriv DERIV_ident) simp
  moreover have "(1 * ?s - z * (z / ?s)) / (?s * ?s) = 1 / ((1 + z\<^sup>2) * ?s)"
  proof -
    have "1 * ?s - z * (z / ?s) = (?s * ?s - z\<^sup>2) / ?s"
      using s by (simp add: field_simps power2_eq_square)
    also have "\<dots> = 1 / ?s" by (simp only: sq) simp
    finally show ?thesis by (simp only: sq) simp
  qed
  ultimately have "((\<lambda>x. x / sqrt (1 + x\<^sup>2)) has_real_derivative 1 / ((1 + z\<^sup>2) * ?s)) (at z)"
    by simp
  then have "((\<lambda>x. (1 + x / sqrt (1 + x\<^sup>2)) / 2) has_real_derivative (0 + 1 / ((1 + z\<^sup>2) * ?s)) / 2) (at z)"
    by (intro DERIV_cdivide DERIV_add DERIV_const)
  moreover have "(0 + 1 / ((1 + z\<^sup>2) * ?s)) / 2 = 1 / (2 * (1 + z\<^sup>2) * ?s)"
    by (simp add: mult.assoc)
  ultimately show ?thesis by (simp only:)
qed

lemma pdf_standin_deriv_raw:
  fixes z :: real
  shows "((\<lambda>x. 1 / (2 * sqrt (1 + x\<^sup>2))) has_real_derivative
    - z * (1 / (2 * (1 + z\<^sup>2) * sqrt (1 + z\<^sup>2)))) (at z)"
proof -
  let ?s = "sqrt (1 + z\<^sup>2)"
  have p: "0 < 1 + z\<^sup>2" by (simp add: add_pos_nonneg)
  have s: "0 < ?s" using p by simp
  have sq: "?s * ?s = 1 + z\<^sup>2" using p by simp
  have g: "((\<lambda>x. 2 * sqrt (1 + x\<^sup>2)) has_real_derivative 2 * (z / ?s)) (at z)"
    by (intro DERIV_cmult sqrt_deriv)
  have "((\<lambda>x. 1 / (2 * sqrt (1 + x\<^sup>2))) has_real_derivative
      (0 * (2 * ?s) - 1 * (2 * (z / ?s))) / ((2 * ?s) * (2 * ?s))) (at z)"
    using s by (intro DERIV_divide g DERIV_const) simp
  moreover have "(0 * (2 * ?s) - 1 * (2 * (z / ?s))) / ((2 * ?s) * (2 * ?s))
      = - z * (1 / (2 * (1 + z\<^sup>2) * ?s))"
  proof -
    have "(2 * ?s) * (2 * ?s) = 4 * (1 + z\<^sup>2)" using sq by simp
    then have "(0 * (2 * ?s) - 1 * (2 * (z / ?s))) / ((2 * ?s) * (2 * ?s))
        = (- (2 * (z / ?s))) / (4 * (1 + z\<^sup>2))" by simp
    also have "\<dots> = - z * (1 / (2 * (1 + z\<^sup>2) * ?s))"
      using s p by (simp add: divide_simps)
    finally show ?thesis .
  qed
  ultimately show ?thesis by (simp only:)
qed

lemma ndtr_standin_at_bot_raw:
  "((\<lambda>x::real. (1 + x / sqrt (1 + x\<^sup>2)) / 2) \<longlongrightarrow> 0) at_bot"
proof (rule order_tendstoI)
  fix a :: real assume "a < 0"
  have "0 \<le> (1 + x / sqrt (1 + x\<^sup>2)) / 2" for x :: real
  proof -
    have p: "0 < sqrt (1 + x\<^sup>2)" by (simp add: add_pos_nonneg)
    have a: "\<bar>x\<bar> \<le> sqrt (1 + x\<^sup>2)" by (rule real_le_rsqrt) simp
    have "- 1 \<le> x / sqrt (1 + x\<^sup>2)" using p a by (subst pos_le_divide_eq) auto
    then show ?thesis by simp
  qed
  then show "eventually (\<lambda>x. a < (1 + x / sqrt (1 + x\<^sup>2)) / 2) at_bot"
    using \<open>a < 0\<close> by (intro always_eventually allI) (rule less_le_trans)
next
  fix a :: real assume a: "0 < a"
  show "eventually (\<lambda>x. (1 + x / sqrt (1 + x\<^sup>2)) / 2 < a) at_bot"
  proof (rule eventually_at_bot_linorderI [where c = "- (1 / a)"])
    fix x :: real assume x: "x \<le> - (1 / a)"
    let ?s = "sqrt (1 + x\<^sup>2)"
    have xneg: "x < 0" using x a by (smt (verit) divide_pos_pos)
    have p: "0 < 1 + x\<^sup>2" by (simp add: add_pos_nonneg)
    have s: "0 < ?s" using p by simp
    have s1: "1 \<le> ?s" by simp
    have sq: "?s * ?s = 1 + x\<^sup>2" using p by simp
    have sx: "- x \<le> ?s" by (rule real_le_rsqrt) simp
    have prod: "(?s + x) * (?s - x) = 1"
      using sq by (simp add: algebra_simps power2_eq_square)
    have pos: "0 < ?s - x" using s xneg by linarith
    have eq: "?s + x = 1 / (?s - x)" using prod pos by (simp add: field_simps)
    have nn: "0 \<le> ?s + x" unfolding eq using pos by simp
    have "1 / (?s - x) \<le> 1 / (- x)"
      by (intro frac_le) (use s xneg in auto)
    then have b: "?s + x \<le> 1 / (- x)" by (simp only: eq)
    have "(1 + x / ?s) / 2 = (?s + x) / (2 * ?s)" using s by (simp add: field_simps)
    also have "\<dots> \<le> (?s + x) / 2"
      by (intro frac_le nn) (use s1 in auto)
    also have "\<dots> \<le> (1 / (- x)) / 2" using b by simp
    also have "\<dots> < 1 / (- x)"
    proof -
      have half: "y / 2 < y" if "0 < y" for y :: real using that by simp
      have "0 < 1 / (- x)" using xneg by simp
      then show ?thesis by (rule half)
    qed
    also have "\<dots> \<le> a" using x a xneg by (simp add: field_simps)
    finally show "(1 + x / ?s) / 2 < a" .
  qed
qed


lemma ndtr_standin_deriv: "(ndtr_standin has_real_derivative density_standin z) (at z)"
  unfolding ndtr_standin_def [abs_def] density_standin_def by (rule ndtr_standin_deriv_raw)

lemma pdf_standin_deriv: "(pdf_standin has_real_derivative - z * density_standin z) (at z)"
  unfolding pdf_standin_def [abs_def] density_standin_def by (rule pdf_standin_deriv_raw)

lemma ndtr_standin_at_bot: "(ndtr_standin \<longlongrightarrow> 0) at_bot"
  unfolding ndtr_standin_def [abs_def] by (rule ndtr_standin_at_bot_raw)

lemma standin_normal_like: "normal_like density_standin ndtr_standin pdf_standin"
  unfolding normal_like_def
  by (intro conjI allI ndtr_standin_deriv pdf_standin_deriv density_standin_nonneg
      ndtr_standin_at_bot conjunct1 [OF pdf_standin_range])

section \<open>The selector and the rows it picks\<close>

lemma argmax_from_mem: "argmax_from v b cs \<in> set (b # cs)"
  by (induction cs arbitrary: b) (auto split: if_splits)

lemma top_k_length: "k \<le> length cs \<Longrightarrow> length (top_k v k cs) = k"
proof (induction v k cs rule: top_k.induct)
  case (3 v k c cs)
  let ?b = "argmax_from v c cs"
  have "?b \<in> set (c # cs)" by (rule argmax_from_mem)
  then have "length (remove1 ?b (c # cs)) = length cs"
    by (simp add: length_remove1 del: remove1.simps)
  with "3.prems" have "k \<le> length (remove1 ?b (c # cs))" by simp
  then have "length (top_k v k (remove1 ?b (c # cs))) = k"
    by (rule "3.IH" [OF refl])
  then show ?case by (simp add: Let_def del: remove1.simps)
qed simp_all

lemma top_k_subset: "set (top_k v k cs) \<subseteq> set cs"
proof (induction v k cs rule: top_k.induct)
  case (3 v k c cs)
  let ?b = "argmax_from v c cs"
  have b: "?b \<in> set (c # cs)" by (rule argmax_from_mem)
  have "set (top_k v k (remove1 ?b (c # cs))) \<subseteq> set (remove1 ?b (c # cs))"
    by (rule "3.IH" [OF refl])
  also have "\<dots> \<subseteq> set (c # cs)" by (rule set_remove1_subset)
  finally show ?case using b by (simp add: Let_def del: remove1.simps)
qed simp_all

lemma top_k_distinct: "distinct cs \<Longrightarrow> distinct (top_k v k cs)"
proof (induction v k cs rule: top_k.induct)
  case (3 v k c cs)
  let ?b = "argmax_from v c cs"
  let ?rest = "remove1 ?b (c # cs)"
  have d: "distinct ?rest" using "3.prems" by (rule distinct_remove1)
  have "distinct (top_k v k ?rest)" by (rule "3.IH" [OF refl d])
  moreover have "?b \<notin> set (top_k v k ?rest)"
  proof -
    have "set (top_k v k ?rest) \<subseteq> set ?rest" by (rule top_k_subset)
    moreover have "?b \<notin> set ?rest" using "3.prems" by (simp only: set_remove1_eq) simp
    ultimately show ?thesis by blast
  qed
  ultimately show ?case by (simp add: Let_def del: remove1.simps)
qed simp_all

lemma multi_argmax_ok:
  assumes "k \<le> length (data p)"
  shows "\<exists>q. multi_argmax p k = Inr q \<and> length q = k \<and> distinct q \<and>
    list_all (\<lambda>i. i < length (data p)) q"
proof -
  let ?q = "top_k (data p) k [0..<length (data p)]"
  have "length ?q = k" using assms by (intro top_k_length) simp
  moreover have "distinct ?q" by (intro top_k_distinct) simp
  moreover have "set ?q \<subseteq> set [0..<length (data p)]" by (rule top_k_subset)
  then have "list_all (\<lambda>i. i < length (data p)) ?q" by (auto simp: list_all_iff)
  ultimately show ?thesis using assms by (simp add: multi_argmax_def)
qed

lemma take_rows_ok:
  assumes "shape X = n # rest" "list_all (\<lambda>i. i < n) q"
  shows "take_rows X q = Inr \<lparr>shape = length q # rest, data = concat (map (nd_row X) q)\<rparr>"
  using assms by (simp add: take_rows_def)

lemma take_rows_Inr:
  assumes "take_rows X q = Inr rows"
  shows "rows = \<lparr>shape = length q # tl (shape X), data = concat (map (nd_row X) q)\<rparr> \<and>
    list_all (\<lambda>i. i < hd (shape X)) q \<and> shape X \<noteq> []"
  using assms by (auto simp: take_rows_def split: list.splits if_splits)


lemma upt_6: "[0..<6] = [0, 1, 2, 3, 4, 5]"
  by code_simp


lemmas eval_defs = scalar_def finite_nd_def reshape_col_def broadcast_shapes_def nd_binop_def
  nd_at_def nd_map_def fl_sub_def signed_inf_def upt_2

lemma zero_std_PI_scores:
  "optimizer_PI ndtr zero_std_surrogate X 0 =
     Inr \<lparr>shape = [2, 1], data = [Fin 1, Fin (ndtr (- (1 / 2)))]\<rparr>"
  by (simp add: optimizer_PI_def zero_std_surrogate_def PI_def eval_defs)

lemma zero_std_EI_scores:
  "optimizer_EI ndtr pdf zero_std_surrogate X 0 =
     Inr \<lparr>shape = [2, 1], data = [Fin (1 / 2), Fin (ei_score ndtr pdf (- (1 / 2)) 1)]\<rparr>"
  by (simp add: optimizer_EI_def zero_std_surrogate_def EI_def eval_defs ei_score_def)

lemma mismatch_UCB_scores:
  "optimizer_UCB mismatch_surrogate X 1 =
     Inr \<lparr>shape = [2, 3], data = [Fin 1, Fin 1, Fin 1, Fin 1, Fin 1, Fin 1]\<rparr>"
  by (simp add: optimizer_UCB_def mismatch_surrogate_def UCB_def eval_defs upt_6)

lemma zero_std_max_PI:
  "max_PI ndtr_standin zero_std_surrogate X2 0 1 = Inr ([0], finite_nd [1, 1] [10])"
proof -
  have "\<not> 1 < ndtr_standin (- (1 / 2))"
    using ndtr_standin_range [of "- (1 / 2)"] by simp
  then show ?thesis
    by (simp add: max_PI_def zero_std_PI_scores multi_argmax_def take_rows_def X2_def
        finite_nd_def nd_row_def upt_2)
qed

lemma zero_std_max_EI:
  "max_EI ndtr_standin pdf_standin zero_std_surrogate X2 0 1 = Inr ([0], finite_nd [1, 1] [10])"
proof -
  have "ei_score ndtr_standin pdf_standin (- (1 / 2)) 1 \<le> 1 / 2"
    using ndtr_standin_range [of "- (1 / 2)"] pdf_standin_range [of "- (1 / 2)"]
    by (simp add: ei_score_def)
  then have "\<not> 1 / 2 < ei_score ndtr_standin pdf_standin (- (1 / 2)) 1" by simp
  then show ?thesis
    by (simp add: max_EI_def zero_std_EI_scores multi_argmax_def take_rows_def X2_def
        finite_nd_def nd_row_def upt_2)
qed

lemma upt_3: "[0..<3] = [0, 1, 2]"
  by code_simp

lemma ndtr_standin_half: "0 \<le> x \<Longrightarrow> 1 / 2 \<le> ndtr_standin x"
  using sqrt_pos1 [of x] by (simp add: ndtr_standin_def)

lemma pdf_standin_even: "pdf_standin (- x) = pdf_standin x"
  by (simp add: pdf_standin_def)

lemma fl_div_zero: "fl_div x (Fin 0) = PInf \<or> fl_div x (Fin 0) = NInf \<or> fl_div x (Fin 0) = NaN"
  by (cases x) (simp_all add: signed_inf_def)

lemma fl_ndtr_nonfinite:
  "z = PInf \<or> z = NInf \<or> z = NaN \<Longrightarrow>
   fl_ndtr ndtr z = Fin 1 \<or> fl_ndtr ndtr z = Fin 0 \<or> fl_ndtr ndtr z = NaN"
  by auto

lemma PI_same_shape:
  assumes "well_shaped mean" and "shape std = shape mean"
  shows "PI ndtr mean std mv t =
    Inr \<lparr>shape = shape mean,
         data = map (\<lambda>i. fl_ndtr ndtr
                  (fl_div (fl_sub (fl_sub (data mean ! i) (Fin mv)) (Fin t)) (data std ! i)))
                [0..<prod_list (shape mean)]\<rparr>"
proof -
  let ?u = "\<lparr>shape = shape mean, data = map (\<lambda>x. fl_sub x (Fin mv)) (data mean)\<rparr>"
  let ?v = "\<lparr>shape = shape mean, data = map (\<lambda>x. fl_sub (fl_sub x (Fin mv)) (Fin t)) (data mean)\<rparr>"
  have w0: "well_shaped ?u" using assms(1) by (simp add: well_shaped_def)
  have s1: "nd_binop fl_sub mean (scalar mv) = Inr ?u"
    by (rule nd_binop_scalar_right [OF assms(1)])
  have s2: "nd_binop fl_sub ?u (scalar t) = Inr ?v"
    using nd_binop_scalar_right [OF w0, of fl_sub t] by (simp add: comp_def)
  have bs: "broadcast_shapes (shape ?v) (shape std) = Some (shape mean)"
    using assms(2) by (simp add: broadcast_shapes_same)
  have "map (\<lambda>i. fl_div (nd_at ?v (shape mean) i) (nd_at std (shape mean) i))
          [0..<prod_list (shape mean)]
      = map (\<lambda>i. fl_div (fl_sub (fl_sub (data mean ! i) (Fin mv)) (Fin t)) (data std ! i))
          [0..<prod_list (shape mean)]"
    using assms by (simp add: nd_at_def bidx_same well_shaped_def)
  then have s3: "nd_binop fl_div ?v std =
      Inr \<lparr>shape = shape mean,
           data = map (\<lambda>i. fl_div (fl_sub (fl_sub (data mean ! i) (Fin mv)) (Fin t)) (data std ! i))
                    [0..<prod_list (shape mean)]\<rparr>"
    by (simp only: nd_binop_Inr [OF bs])
  show ?thesis
    by (simp only: PI_def s1 s2 s3 sum.case) (simp add: nd_map_def comp_def)
qed

lemma strategy_total:
  assumes "adapter = Inr p" and "length (data p) = n" and "shape X = n # rest" and "k \<le> n"
  shows "\<exists>q rows. (case multi_argmax p k of Inl e \<Rightarrow> Inl e | Inr query_idx \<Rightarrow>
      (case take_rows X query_idx of Inl e \<Rightarrow> Inl e | Inr rows \<Rightarrow> Inr (query_idx, rows)))
      = Inr (q, rows) \<and> length q = k \<and> distinct q \<and> list_all (\<lambda>i. i < n) q"
proof -
  from multi_argmax_ok [of k p] assms(2,4) obtain q where q: "multi_argmax p k = Inr q"
    "length q = k" "distinct q" "list_all (\<lambda>i. i < n) q" by auto
  then show ?thesis
    using take_rows_ok [OF assms(3) q(4)] by simp
qed

lemma column_max_UCB: "max_UCB column_surrogate X3 1 1 = Inr ([1], finite_nd [1, 1] [20])"
proof -
  have "optimizer_UCB column_surrogate X3 1 =
      Inr \<lparr>shape = [3, 1], data = [Fin (11 / 10), Fin (21 / 10), Fin (6 / 10)]\<rparr>"
    by (simp add: optimizer_UCB_def column_surrogate_def UCB_def eval_defs upt_3)
  then show ?thesis
    by (simp add: max_UCB_def multi_argmax_def take_rows_def X3_def finite_nd_def nd_row_def
        upt_3)
qed

section \<open>The expected-improvement scenario with a column of means\<close>

text \<open>
  When the surrogate returns the means 1.0, 2.0 and 0.5 as a column, the adapter returns
  one score per candidate and \<open>max_EI\<close> selects the index 1 with its row, for every \<open>ndtr\<close>
  that is non-negative and at least 1/2 on non-negative arguments and every even \<open>pdf\<close>
  between 0 and 1.
\<close>

lemma column_mean_scenario_selects_1:
  assumes "predict opt X = Inr (finite_nd [3, 1] [1, 2, 1 / 2], finite_nd [3] [1 / 10, 1 / 10, 1 / 10])"
    and "y_max opt = 3 / 2" and "shape X = 3 # rest"
    and "\<forall>x. 0 \<le> ndtr x" and "\<forall>x. 0 \<le> x \<longrightarrow> 1 / 2 \<le> ndtr x"
    and "\<forall>x. pdf (- x) = pdf x" and "\<forall>x. 0 \<le> pdf x \<and> pdf x \<le> 1"
  shows "max_EI ndtr pdf opt X 0 1 = Inr ([1], \<lparr>shape = 1 # rest, data = nd_row X 1\<rparr>)"
proof -
  let ?e0 = "ei_score ndtr pdf (- (1 / 2)) (1 / 10)"
  let ?e1 = "ei_score ndtr pdf (1 / 2) (1 / 10)"
  let ?e2 = "ei_score ndtr pdf (- 1) (1 / 10)"
  have bs: "broadcast_shapes [3, 1] [3, 1] = Some [3, 1]" by (rule broadcast_shapes_same)
  have ei: "EI ndtr pdf (finite_nd [3, 1] [1, 2, 1 / 2])
      (finite_nd [3, 1] [1 / 10, 1 / 10, 1 / 10]) (3 / 2) 0 =
      Inr (finite_nd [3, 1] [?e0, ?e1, ?e2])"
    using EI_finite [OF bs, of "[1, 2, 1 / 2]" "[1 / 10, 1 / 10, 1 / 10]" ndtr pdf "3 / 2" 0]
    by (simp add: upt_3 pick_def)
  have rc: "reshape_col (finite_nd [3] [1 / 10, 1 / 10, 1 / 10]) =
      finite_nd [3, 1] [1 / 10, 1 / 10, 1 / 10]"
    by (simp add: reshape_col_def finite_nd_def)
  have scores: "optimizer_EI ndtr pdf opt X 0 = Inr (finite_nd [3, 1] [?e0, ?e1, ?e2])"
    by (simp only: optimizer_EI_def assms(1) assms(2) sum.case prod.case rc ei)
  have n5: "0 \<le> ndtr (- 5)" and p5: "1 / 2 \<le> ndtr 5" and n10: "0 \<le> ndtr (- 10)"
    and even5: "pdf (- 5) = pdf 5" and b5: "0 \<le> pdf 5" and b10: "pdf (- 10) \<le> 1"
    using assms(4-7) by simp_all
  have e01: "?e0 < ?e1"
    using n5 p5 even5 by (simp add: ei_score_def)
  have e12: "\<not> ?e1 < ?e2"
    using p5 n10 b5 b10 by (simp add: ei_score_def)
  have sel: "multi_argmax (finite_nd [3, 1] [?e0, ?e1, ?e2]) 1 = Inr [1]"
    using e01 e12 by (simp add: multi_argmax_def finite_nd_def upt_3)
  show ?thesis
    using assms(3) sel by (simp add: max_EI_def scores take_rows_def)
qed

lemma column_mean_scenario_at_standin:
  "max_EI ndtr_standin pdf_standin column_surrogate X3 0 1 = Inr ([1], finite_nd [1, 1] [20])"
proof -
  have p: "predict column_surrogate X3 =
      Inr (finite_nd [3, 1] [1, 2, 1 / 2], finite_nd [3] [1 / 10, 1 / 10, 1 / 10])"
    and y: "y_max column_surrogate = 3 / 2" and x: "shape X3 = 3 # [1]"
    by (simp_all add: column_surrogate_def X3_def finite_nd_def)
  have r: "\<forall>x. 0 \<le> pdf_standin x \<and> pdf_standin x \<le> 1"
  proof
    fix x
    show "0 \<le> pdf_standin x \<and> pdf_standin x \<le> 1"
      using pdf_standin_range [of x] by linarith
  qed
  from column_mean_scenario_selects_1 [OF p y x, of ndtr_standin pdf_standin]
  show ?thesis
    using ndtr_standin_range ndtr_standin_half pdf_standin_even r
    by (simp add: X3_def finite_nd_def nd_row_def)
qed

section \<open>The shape of the scores\<close>

text \<open>
  C1. The adapters document a score array of shape \<open>(n_samples,)\<close>. With a flat mean
  of \<open>n\<close> entries and the \<open>n\<close> standard deviations reshaped to a column, every adapter
  returns an \<open>n\<close>-by-\<open>n\<close> matrix: \<open>n * n\<close> scores for \<open>n\<close> candidates.
\<close>

theorem flat_mean_scores_are_a_matrix:
  assumes "predict opt X = Inr (mean, std)" and "shape mean = [n]" and "length (data std) = n"
  shows "map_sum id shape (optimizer_PI ndtr opt X t) = Inr [n, n] \<and>
         map_sum id shape (optimizer_EI ndtr pdf opt X t) = Inr [n, n] \<and>
         map_sum id shape (optimizer_UCB opt X b) = Inr [n, n]"
proof -
  have bs: "broadcast_shapes (shape mean) (shape (reshape_col std)) = Some [n, n]"
    using assms(2,3) by (simp add: reshape_col_def broadcast_shapes_def)
  from PI_shape [OF bs, of ndtr "y_max opt" t] EI_shape [OF bs, of ndtr pdf "y_max opt" t]
    UCB_shape [OF bs, of b]
  show ?thesis
    using assms(1) by (auto simp: optimizer_PI_def optimizer_EI_def optimizer_UCB_def)
qed

theorem flat_mean_scores_are_a_matrix_witness:
  "map_sum id shape (optimizer_PI ndtr_standin flat_surrogate X2 0) = Inr [2, 2] \<and>
   map_sum id shape (optimizer_EI ndtr_standin pdf_standin flat_surrogate X2 0) = Inr [2, 2] \<and>
   map_sum id shape (optimizer_UCB flat_surrogate X2 2) = Inr [2, 2]"
proof -
  have p: "predict flat_surrogate X2 = Inr (finite_nd [2] [0, 0], finite_nd [2] [1, 5])"
    by (simp add: flat_surrogate_def)
  have s: "shape (finite_nd [2] [0, 0]) = [2]" and l: "length (data (finite_nd [2] [1, 5])) = 2"
    by (simp_all add: finite_nd_def)
  show ?thesis
    by (rule flat_mean_scores_are_a_matrix [OF p s l])
qed

section \<open>The acquisition formulas\<close>

text \<open>
  C4. On a mean and a standard deviation of finite entries whose shapes broadcast, with
  every standard deviation positive, \<open>PI\<close> returns at each position \<open>ndtr\<close> of the margin
  \<open>mean - max_val - tradeoff\<close> divided by the standard deviation; when \<open>ndtr\<close> takes its
  values in \<open>[0, 1]\<close>, as a distribution function does, so does every score.
\<close>

theorem PI_scores_in_unit_interval:
  assumes "broadcast_shapes s t = Some r" and "length ms = prod_list s"
    and "length ss = prod_list t" and "list_all (\<lambda>x. 0 < x) ss"
    and "\<forall>x. 0 \<le> ndtr x \<and> ndtr x \<le> 1"
  shows "\<exists>ps. PI ndtr (finite_nd s ms) (finite_nd t ss) max_val tradeoff = Inr (finite_nd r ps) \<and>
    ps = map (\<lambda>i. ndtr ((pick r s ms i - max_val - tradeoff) / pick r t ss i)) [0..<prod_list r] \<and>
    list_all (\<lambda>p. 0 \<le> p \<and> p \<le> 1) ps"
proof -
  have nz: "0 \<notin> set ss" using assms(4) by (auto simp: list_all_iff)
  show ?thesis
    using PI_finite [OF assms(1-3) nz] assms(5) by (simp add: list_all_iff)
qed

theorem PI_scores_in_unit_interval_witness:
  "PI ndtr_standin (finite_nd [2, 1] [2, 1]) (finite_nd [2, 1] [1, 2]) (3 / 2) 0 =
     Inr (finite_nd [2, 1] [ndtr_standin (1 / 2), ndtr_standin (- (1 / 4))]) \<and>
   list_all (\<lambda>p. 0 \<le> p \<and> p \<le> 1) [ndtr_standin (1 / 2), ndtr_standin (- (1 / 4))]"
proof -
  have bs: "broadcast_shapes [2, 1] [2, 1] = Some [2, 1]" by (rule broadcast_shapes_same)
  from PI_scores_in_unit_interval [OF bs, of "[2, 1]" "[1, 2]" ndtr_standin "3 / 2" 0]
  show ?thesis
    by (simp add: ndtr_standin_range upt_2 pick_def)
qed

text \<open>
  C5. On a mean and a standard deviation of finite entries whose shapes broadcast, with
  every standard deviation positive and \<open>tradeoff = 0\<close>, \<open>EI\<close> returns at each position
  \<open>d * ndtr (d / std) + std * pdf (d / std)\<close> for the margin \<open>d = mean - max_val - 0\<close>, and
  none of these values is negative when \<open>ndtr\<close> and \<open>pdf\<close> are a distribution function and
  its companion as the standard normal ones are (\<open>normal_like\<close>).
\<close>

theorem EI_nonneg:
  assumes "broadcast_shapes s t = Some r" and "length ms = prod_list s"
    and "length ss = prod_list t" and "list_all (\<lambda>x. 0 < x) ss"
    and "normal_like psi ndtr pdf"
  shows "\<exists>es. EI ndtr pdf (finite_nd s ms) (finite_nd t ss) max_val 0 = Inr (finite_nd r es) \<and>
    es = map (\<lambda>i. ei_score ndtr pdf (pick r s ms i - max_val - 0) (pick r t ss i))
           [0..<prod_list r] \<and>
    list_all (\<lambda>e. 0 \<le> e) es"
proof -
  have nz: "0 \<notin> set ss" using assms(4) by (auto simp: list_all_iff)
  have pos: "0 < pick r t ss i" if "i < prod_list r" for i
    using pick_right_mem [OF assms(1) assms(3) that] assms(4) by (auto simp: list_all_iff)
  show ?thesis
    using EI_finite [OF assms(1-3) nz, of ndtr pdf max_val 0] pos
    by (simp add: list_all_iff ei_score_nonneg [OF assms(5)])
qed

theorem EI_nonneg_witness:
  "EI ndtr_standin pdf_standin (finite_nd [2, 1] [2, 1]) (finite_nd [2, 1] [1, 2]) (3 / 2) 0 =
     Inr (finite_nd [2, 1] [ei_score ndtr_standin pdf_standin (1 / 2) 1,
                           ei_score ndtr_standin pdf_standin (- (1 / 2)) 2]) \<and>
   list_all (\<lambda>e. 0 \<le> e) [ei_score ndtr_standin pdf_standin (1 / 2) 1,
                           ei_score ndtr_standin pdf_standin (- (1 / 2)) 2]"
proof -
  have bs: "broadcast_shapes [2, 1] [2, 1] = Some [2, 1]" by (rule broadcast_shapes_same)
  from EI_nonneg [OF bs _ _ _ standin_normal_like, of "[2, 1]" "[1, 2]" "3 / 2"]
  show ?thesis
    by (simp add: upt_2 pick_def)
qed

text \<open>
  C6. With \<open>beta = 0\<close> the upper confidence bound is the mean itself, entry by entry and
  in the mean's shape, for every standard deviation of finite entries that broadcasts
  into the mean's shape.
\<close>

theorem UCB_beta_zero_is_mean:
  assumes "well_shaped mean" and "broadcast_shapes (shape mean) t = Some (shape mean)"
    and "length ss = prod_list t"
  shows "UCB mean (finite_nd t ss) 0 = Inr mean"
proof -
  let ?b = "finite_nd t (map (\<lambda>x. 0) ss)"
  have bs: "broadcast_shapes (shape mean) (shape ?b) = Some (shape mean)"
    using assms(2) by (simp add: finite_nd_def)
  have lb: "length (map (\<lambda>x. 0::real) ss) = prod_list t" using assms(3) by simp
  have zero: "nd_at ?b (shape mean) i = Fin 0" if "i < prod_list (shape mean)" for i
    using nd_at_finite_right [OF assms(2) lb that]
      pick_map_right [OF assms(2) assms(3) that, of "\<lambda>x. 0"]
    by (simp add: pick_def)
  have "map (\<lambda>i. fl_add (nd_at mean (shape mean) i) (nd_at ?b (shape mean) i))
          [0..<prod_list (shape mean)]
      = map (\<lambda>i. data mean ! i) [0..<length (data mean)]"
    using assms(1) by (simp add: well_shaped_def nd_at_same fl_add_zero zero)
  also have "\<dots> = data mean" by (rule map_nth)
  finally have "nd_binop fl_add mean ?b = Inr mean"
    by (simp add: nd_binop_Inr [OF bs])
  then show ?thesis
    by (simp add: UCB_def mul_scalar_finite [OF assms(3)])
qed

theorem UCB_beta_zero_is_mean_witness:
  "UCB (finite_nd [2] [3, - 1]) (finite_nd [2] [1, 5]) 0 = Inr (finite_nd [2] [3, - 1])"
proof -
  have ws: "well_shaped (finite_nd [2] [3, - 1])" by (simp add: well_shaped_def finite_nd_def)
  have bs: "broadcast_shapes (shape (finite_nd [2] [3, - 1])) [2] = Some (shape (finite_nd [2] [3, - 1]))"
    by (simp add: finite_nd_def broadcast_shapes_same)
  show ?thesis
    using UCB_beta_zero_is_mean [OF ws bs, of "[1, 5]"] by simp
qed

text \<open>
  C10. \<open>EI\<close> is \<open>PI\<close> weighted by the margin plus the standard deviation times the
  density at the normalised margin: at each position,
  \<open>EI = (mean - max_val - tradeoff) * PI + std * pdf ((mean - max_val - tradeoff) / std)\<close>.
\<close>

theorem EI_from_PI:
  assumes "broadcast_shapes s t = Some r" and "length ms = prod_list s"
    and "length ss = prod_list t" and "list_all (\<lambda>x. 0 < x) ss"
  shows "\<exists>es ps. EI ndtr pdf (finite_nd s ms) (finite_nd t ss) max_val tradeoff = Inr (finite_nd r es) \<and>
    PI ndtr (finite_nd s ms) (finite_nd t ss) max_val tradeoff = Inr (finite_nd r ps) \<and>
    length ps = prod_list r \<and>
    es = map (\<lambda>i. (pick r s ms i - max_val - tradeoff) * ps ! i +
                  pick r t ss i * pdf ((pick r s ms i - max_val - tradeoff) / pick r t ss i))
           [0..<prod_list r]"
proof -
  have nz: "0 \<notin> set ss" using assms(4) by (auto simp: list_all_iff)
  let ?ps = "map (\<lambda>i. ndtr ((pick r s ms i - max_val - tradeoff) / pick r t ss i)) [0..<prod_list r]"
  let ?es = "map (\<lambda>i. ei_score ndtr pdf (pick r s ms i - max_val - tradeoff) (pick r t ss i))
      [0..<prod_list r]"
  have "?es = map (\<lambda>i. (pick r s ms i - max_val - tradeoff) * ?ps ! i +
                  pick r t ss i * pdf ((pick r s ms i - max_val - tradeoff) / pick r t ss i))
           [0..<prod_list r]"
    by (simp add: ei_score_def)
  then show ?thesis
    using PI_finite [OF assms(1-3) nz, of ndtr max_val tradeoff]
      EI_finite [OF assms(1-3) nz, of ndtr pdf max_val tradeoff]
    by (intro exI [of _ ?es] exI [of _ ?ps]) simp
qed

theorem EI_from_PI_witness:
  "\<exists>ps. EI ndtr_standin pdf_standin (finite_nd [2, 1] [2, 1]) (finite_nd [2, 1] [1, 2]) (3 / 2) 0 =
     Inr (finite_nd [2, 1] [(1 / 2) * ps ! 0 + 1 * pdf_standin (1 / 2),
                         (- (1 / 2)) * ps ! 1 + 2 * pdf_standin (- (1 / 4))]) \<and>
   PI ndtr_standin (finite_nd [2, 1] [2, 1]) (finite_nd [2, 1] [1, 2]) (3 / 2) 0 =
     Inr (finite_nd [2, 1] ps)"
proof -
  have bs: "broadcast_shapes [2, 1] [2, 1] = Some [2, 1]" by (rule broadcast_shapes_same)
  from EI_from_PI [OF bs, of "[2, 1]" "[1, 2]" ndtr_standin pdf_standin "3 / 2" 0]
  show ?thesis
    by (auto simp: upt_2 pick_def)
qed

section \<open>The query strategies\<close>

text \<open>
  C8. Whenever a query strategy returns, its second component holds the rows of the
  candidate batch at the returned indices, in the order of the indices, and the indices
  are what the selector made of the adapter's scores: the result is
  \<open>(query_idx, X[query_idx])\<close>.
\<close>

theorem strategies_return_rows_at_indices:
  "(max_PI ndtr opt X tradeoff n = Inr (q, rows) \<longrightarrow>
      (\<exists>p. optimizer_PI ndtr opt X tradeoff = Inr p \<and> multi_argmax p n = Inr q) \<and>
      rows = \<lparr>shape = length q # tl (shape X), data = concat (map (nd_row X) q)\<rparr>) \<and>
   (max_EI ndtr pdf opt X tradeoff n = Inr (q, rows) \<longrightarrow>
      (\<exists>p. optimizer_EI ndtr pdf opt X tradeoff = Inr p \<and> multi_argmax p n = Inr q) \<and>
      rows = \<lparr>shape = length q # tl (shape X), data = concat (map (nd_row X) q)\<rparr>) \<and>
   (max_UCB opt X beta n = Inr (q, rows) \<longrightarrow>
      (\<exists>p. optimizer_UCB opt X beta = Inr p \<and> multi_argmax p n = Inr q) \<and>
      rows = \<lparr>shape = length q # tl (shape X), data = concat (map (nd_row X) q)\<rparr>)"
  by (auto simp: max_PI_def max_EI_def max_UCB_def split: sum.splits dest: take_rows_Inr)

theorem strategies_return_rows_at_indices_witness:
  "((\<exists>p. optimizer_PI ndtr_standin zero_std_surrogate X2 0 = Inr p \<and> multi_argmax p 1 = Inr [0]) \<and>
    finite_nd [1, 1] [10] = \<lparr>shape = length [0::nat] # tl (shape X2),
                              data = concat (map (nd_row X2) [0])\<rparr>) \<and>
   ((\<exists>p. optimizer_EI ndtr_standin pdf_standin zero_std_surrogate X2 0 = Inr p \<and>
         multi_argmax p 1 = Inr [0]) \<and>
    finite_nd [1, 1] [10] = \<lparr>shape = length [0::nat] # tl (shape X2),
                              data = concat (map (nd_row X2) [0])\<rparr>) \<and>
   ((\<exists>p. optimizer_UCB column_surrogate X3 1 = Inr p \<and> multi_argmax p 1 = Inr [1]) \<and>
    finite_nd [1, 1] [20] = \<lparr>shape = length [1::nat] # tl (shape X3),
                              data = concat (map (nd_row X3) [1])\<rparr>)"
  using strategies_return_rows_at_indices [of ndtr_standin zero_std_surrogate X2 0 1 "[0]"
      "finite_nd [1, 1] [10]" pdf_standin 0]
    strategies_return_rows_at_indices [of ndtr_standin column_surrogate X3 0 1 "[1]"
      "finite_nd [1, 1] [20]" pdf_standin 1]
    zero_std_max_PI zero_std_max_EI column_max_UCB
  by blast



section \<open>What is rejected and what is not\<close>

text \<open>
  C2, counterexample. The first candidate has standard deviation 0 and a positive margin:
  its normalised margin is plus infinity, its probability of improvement is 1 and its
  expected improvement is the margin. No error is raised: both strategies return this
  candidate as their selection.
\<close>

theorem zero_std_candidate_is_selected:
  "optimizer_PI ndtr_standin zero_std_surrogate X2 0 =
     Inr \<lparr>shape = [2, 1], data = [Fin 1, Fin (ndtr_standin (- (1 / 2)))]\<rparr> \<and>
   max_PI ndtr_standin zero_std_surrogate X2 0 1 = Inr ([0], finite_nd [1, 1] [10]) \<and>
   max_EI ndtr_standin pdf_standin zero_std_surrogate X2 0 1 = Inr ([0], finite_nd [1, 1] [10])"
  by (intro conjI zero_std_PI_scores zero_std_max_PI zero_std_max_EI)

text \<open>
  C2, as the code has it. An exact zero among the standard deviations is not rejected.
  With a column of \<open>n\<close> means, \<open>n\<close> standard deviations of which the one at
  position \<open>i\<close> is 0, \<open>n\<close> candidate rows and \<open>k \<le> n\<close>, both strategies return \<open>k\<close>
  indices with their rows; the probability of improvement at position \<open>i\<close> is \<open>ndtr\<close> of
  an infinity or of NaN, that is 1, 0 or NaN.
\<close>

theorem zero_std_is_not_rejected:
  assumes "predict opt X = Inr (mean, std)" and "well_shaped mean" and "shape mean = [n, 1]"
    and "length (data std) = n" and "shape X = n # rest" and "k \<le> n"
    and "i < n" and "data std ! i = Fin 0"
  shows "(\<exists>p q rows. optimizer_PI ndtr opt X tradeoff = Inr p \<and>
           (data p ! i = Fin 1 \<or> data p ! i = Fin 0 \<or> data p ! i = NaN) \<and>
           max_PI ndtr opt X tradeoff k = Inr (q, rows) \<and> length q = k) \<and>
         (\<exists>q rows. max_EI ndtr pdf opt X tradeoff k = Inr (q, rows) \<and> length q = k)"
proof
  let ?std = "reshape_col std"
  have sh: "shape ?std = shape mean" using assms(3,4) by (simp add: reshape_col_def)
  let ?p = "\<lparr>shape = shape mean,
         data = map (\<lambda>i. fl_ndtr ndtr
                  (fl_div (fl_sub (fl_sub (data mean ! i) (Fin (y_max opt))) (Fin tradeoff))
                     (data ?std ! i)))
                [0..<prod_list (shape mean)]\<rparr>"
  have pi: "optimizer_PI ndtr opt X tradeoff = Inr ?p"
    using PI_same_shape [OF assms(2) sh, of ndtr "y_max opt" tradeoff] assms(1)
    by (simp add: optimizer_PI_def)
  have len: "length (data ?p) = n" using assms(3) by simp
  have "data ?p ! i = fl_ndtr ndtr
      (fl_div (fl_sub (fl_sub (data mean ! i) (Fin (y_max opt))) (Fin tradeoff)) (Fin 0))"
    using assms(3,7,8) by (simp add: reshape_col_def)
  then have entry: "data ?p ! i = Fin 1 \<or> data ?p ! i = Fin 0 \<or> data ?p ! i = NaN"
    using fl_ndtr_nonfinite [OF fl_div_zero] by (simp only:)
  from strategy_total [OF pi len assms(5,6)]
  obtain q rows where "max_PI ndtr opt X tradeoff k = Inr (q, rows)" "length q = k"
    by (auto simp: max_PI_def pi)
  with pi entry
  show "\<exists>p q rows. optimizer_PI ndtr opt X tradeoff = Inr p \<and>
           (data p ! i = Fin 1 \<or> data p ! i = Fin 0 \<or> data p ! i = NaN) \<and>
           max_PI ndtr opt X tradeoff k = Inr (q, rows) \<and> length q = k"
    by blast
next
  have bs: "broadcast_shapes (shape mean) (shape (reshape_col std)) = Some [n, 1]"
    using assms(3,4) by (simp add: reshape_col_def broadcast_shapes_same)
  from EI_shape [OF bs, of ndtr pdf "y_max opt" tradeoff]
  obtain p where p: "optimizer_EI ndtr pdf opt X tradeoff = Inr p" "length (data p) = n"
    using assms(1) by (auto simp: optimizer_EI_def)
  from strategy_total [OF p assms(5,6)]
  show "\<exists>q rows. max_EI ndtr pdf opt X tradeoff k = Inr (q, rows) \<and> length q = k"
    by (auto simp: max_EI_def p)
qed

theorem zero_std_is_not_rejected_witness:
  "(\<exists>p q rows. optimizer_PI ndtr_standin zero_std_surrogate X2 0 = Inr p \<and>
      (data p ! 0 = Fin 1 \<or> data p ! 0 = Fin 0 \<or> data p ! 0 = NaN) \<and>
      max_PI ndtr_standin zero_std_surrogate X2 0 1 = Inr (q, rows) \<and> length q = 1) \<and>
   (\<exists>q rows. max_EI ndtr_standin pdf_standin zero_std_surrogate X2 0 1 = Inr (q, rows) \<and>
      length q = 1)"
proof -
  have p: "predict zero_std_surrogate X2 = Inr (finite_nd [2, 1] [2, 1], finite_nd [2] [0, 1])"
    by (simp add: zero_std_surrogate_def)
  have w: "well_shaped (finite_nd [2, 1] [2, 1])" by (simp add: well_shaped_finite_nd)
  have s: "shape (finite_nd [2, 1] [2, 1]) = [2, 1]" by (simp add: finite_nd_def)
  have l: "length (data (finite_nd [2] [0, 1])) = 2" by (simp add: finite_nd_def)
  have x: "shape X2 = 2 # [1]" by (simp add: X2_def finite_nd_def)
  have z: "data (finite_nd [2] [0, 1]) ! 0 = Fin 0" by (simp add: finite_nd_def)
  show ?thesis
    by (rule zero_std_is_not_rejected [OF p w s l x _ _ z]) simp_all
qed

text \<open>
  C3, counterexample. Three means with two standard deviations: the shapes \<open>(3,)\<close> and
  \<open>(2, 1)\<close> broadcast, and every adapter returns a 2-by-3 array of scores instead of
  failing.
\<close>

theorem mismatched_shapes_broadcast_silently:
  "map_sum id shape (optimizer_PI ndtr_standin mismatch_surrogate X3 0) = Inr [2, 3] \<and>
   map_sum id shape (optimizer_EI ndtr_standin pdf_standin mismatch_surrogate X3 0) = Inr [2, 3] \<and>
   optimizer_UCB mismatch_surrogate X3 1 =
     Inr \<lparr>shape = [2, 3], data = [Fin 1, Fin 1, Fin 1, Fin 1, Fin 1, Fin 1]\<rparr>"
proof -
  let ?m = "finite_nd [3] [0, 0, 0]" and ?s = "reshape_col (finite_nd [2] [1, 1])"
  have bs: "broadcast_shapes (shape ?m) (shape ?s) = Some [2, 3]"
    by (simp add: finite_nd_def reshape_col_def broadcast_shapes_def)
  have a: "map_sum id shape (optimizer_PI ndtr_standin mismatch_surrogate X3 0) = Inr [2, 3]"
    using PI_shape [OF bs, of ndtr_standin 0 0]
    by (auto simp: optimizer_PI_def mismatch_surrogate_def)
  have b: "map_sum id shape (optimizer_EI ndtr_standin pdf_standin mismatch_surrogate X3 0) =
      Inr [2, 3]"
    using EI_shape [OF bs, of ndtr_standin pdf_standin 0 0]
    by (auto simp: optimizer_EI_def mismatch_surrogate_def)
  show ?thesis
    by (intro conjI a b mismatch_UCB_scores)
qed

text \<open>
  C3, as the code has it. The adapters check no shapes themselves. When the shape of the
  means cannot be broadcast against the column of standard deviations, the arithmetic
  raises ValueError and no scores are returned.
\<close>

theorem incompatible_shapes_raise_ValueError:
  assumes "predict opt X = Inr (mean, std)"
    and "broadcast_shapes (shape mean) [length (data std), 1] = None"
  shows "optimizer_PI ndtr opt X tradeoff = Inl ValueError \<and>
         optimizer_EI ndtr pdf opt X tradeoff = Inl ValueError \<and>
         optimizer_UCB opt X beta = Inl ValueError"
proof -
  have bs: "broadcast_shapes (shape mean) (shape (reshape_col std)) = None"
    using assms(2) by (simp add: reshape_col_def)
  show ?thesis
    using assms(1) by (simp add: optimizer_PI_def optimizer_EI_def optimizer_UCB_def
        PI_fails [OF bs] EI_fails [OF bs] UCB_fails [OF bs])
qed

theorem incompatible_shapes_raise_ValueError_witness:
  "optimizer_PI ndtr_standin incompatible_surrogate X3 0 = Inl ValueError \<and>
   optimizer_EI ndtr_standin pdf_standin incompatible_surrogate X3 0 = Inl ValueError \<and>
   optimizer_UCB incompatible_surrogate X3 1 = Inl ValueError"
proof -
  have p: "predict incompatible_surrogate X3 =
      Inr (finite_nd [3, 2] [0, 0, 0, 0, 0, 0], finite_nd [2] [1, 1])"
    by (simp add: incompatible_surrogate_def)
  have bs: "broadcast_shapes (shape (finite_nd [3, 2] [0, 0, 0, 0, 0, 0]))
      [length (data (finite_nd [2] [1, 1])), 1] = None"
    by (simp add: finite_nd_def broadcast_shapes_def)
  show ?thesis
    by (rule incompatible_shapes_raise_ValueError [OF p bs])
qed

end
